theory Spec2Isabelle
  imports Complex_Main "HOL-Library.Product_Lexorder"
begin

section \<open>Highlight extraction and timeline compositing: the model\<close>

text \<open>
  A shallow embedding of the analysis stage (\<^verbatim>\<open>analyzeVideos\<close>, \<^verbatim>\<open>dedupeClips\<close>,
  \<^verbatim>\<open>mapGlobalTimeToFileRange\<close>), the signal helpers (\<^verbatim>\<open>movingAverage\<close>,
  \<^verbatim>\<open>detectPeaks\<close>, \<^verbatim>\<open>clamp\<close>), the transcription entry point
  (\<^verbatim>\<open>runTranscriptionIfEnabled\<close>), the caption normaliser (\<^verbatim>\<open>extractSegments\<close>) and the
  caption cursor of the compositor (\<^verbatim>\<open>renderClipToCanvas\<close>, \<^verbatim>\<open>exportCompilation\<close>).

  JavaScript numbers are modelled as \<^typ>\<open>real\<close>: rounding of IEEE doubles, \<^verbatim>\<open>NaN\<close> and
  the rounding to 32-bit floats of \<^verbatim>\<open>Float32Array\<close> are outside the model. The two
  infinities the code uses are modelled by \<^typ>\<open>'a option\<close>: \<^verbatim>\<open>-Infinity\<close> as the
  initial \<^verbatim>\<open>lastIdx\<close> of \<^verbatim>\<open>detectPeaks\<close> and \<^verbatim>\<open>Infinity\<close> as the upper bound of
  \<^verbatim>\<open>clamp\<close> are both \<^term>\<open>None\<close>. Array indices and lengths are \<^typ>\<open>nat\<close>. A counted
  \<^verbatim>\<open>for\<close> loop is a fold over its index range, a \<^verbatim>\<open>for ... of\<close> loop a fold or a
  recursion over the list, a \<^verbatim>\<open>while\<close> loop a recursive function with a measure.
\<close>

subsection \<open>Signal helpers (utils.js)\<close>

text \<open>
  \<^verbatim>\<open>movingAverage(arr, k)\<close>: one iteration of the loop body on the pair of the running
  \<^verbatim>\<open>sum\<close> and the output array. The window size \<open>k\<close> is a natural number; for
  \<open>k = 0\<close> the divisor \<^verbatim>\<open>Math.min(i + 1, k)\<close> is zero and JavaScript yields \<^verbatim>\<open>NaN\<close>
  where HOL's division yields \<open>0\<close>, so values of the model are meaningful for
  \<open>k \<ge> 1\<close> only (the caller passes 5).
\<close>

definition movingAverage_step ::
  "real list \<Rightarrow> nat \<Rightarrow> real \<times> real list \<Rightarrow> nat \<Rightarrow> real \<times> real list" where
  "movingAverage_step arr k st i =
     (case st of (sum0, out) \<Rightarrow>
        let sum1 = sum0 + arr ! i;
            sum2 = (if i \<ge> k then sum1 - arr ! (i - k) else sum1)
        in (sum2, out[i := sum2 / real (min (i + 1) k)]))"

definition movingAverage :: "real list \<Rightarrow> nat \<Rightarrow> real list" where
  "movingAverage arr k =
     snd (foldl (movingAverage_step arr k) (0, replicate (length arr) 0) [0..<length arr])"

text \<open>
  \<^verbatim>\<open>detectPeaks(arr, threshold, minDistance)\<close>: the loop runs over
  \<open>i = 1, \<dots>, arr.length - 2\<close>; its state is \<^verbatim>\<open>lastIdx\<close> (\<^term>\<open>None\<close> for
  \<^verbatim>\<open>-Infinity\<close>, against which every finite distance is large enough) and \<^verbatim>\<open>peaks\<close>.
\<close>

definition detectPeaks_step ::
  "real list \<Rightarrow> real \<Rightarrow> real \<Rightarrow> nat option \<times> nat list \<Rightarrow> nat \<Rightarrow> nat option \<times> nat list" where
  "detectPeaks_step arr threshold minDistance st i =
     (case st of (lastIdx, peaks) \<Rightarrow>
        if arr ! i > threshold \<and> arr ! i > arr ! (i - 1) \<and> arr ! i \<ge> arr ! (i + 1)
        then (if (case lastIdx of None \<Rightarrow> True | Some l \<Rightarrow> real i - real l \<ge> minDistance)
              then (Some i, peaks @ [i]) else (lastIdx, peaks))
        else (lastIdx, peaks))"

definition detectPeaks :: "real list \<Rightarrow> real \<Rightarrow> real \<Rightarrow> nat list" where
  "detectPeaks arr threshold minDistance =
     snd (foldl (detectPeaks_step arr threshold minDistance) (None, []) [1..<length arr - 1])"

text \<open>\<^verbatim>\<open>clamp(value, min, max) = Math.min(max, Math.max(min, value))\<close>; the upper bound
  \<^term>\<open>None\<close> is \<^verbatim>\<open>Infinity\<close>.\<close>

definition clamp :: "real \<Rightarrow> real \<Rightarrow> real option \<Rightarrow> real" where
  "clamp v lo hi = (case hi of None \<Rightarrow> max lo v | Some h \<Rightarrow> min h (max lo v))"

subsection \<open>Clips and the analysis stage (analysis.js)\<close>

record clip =
  fileIndex :: nat
  c_start :: real
  c_end :: real

text \<open>
  What the analysis keeps of one decoded file: \<open>rms\<close> is the RMS curve
  \<^verbatim>\<open>computeRMS(resampleMonoPCM(pcm, sr, 16000), 1600, 1600)\<close> of its audio and
  \<open>duration\<close> the \<^verbatim>\<open>video.duration\<close> that \<^verbatim>\<open>detectScenes\<close> reports. Decoding and frame
  sampling are external; a file that fails to decode aborts the run before any of the
  functions below is reached.
\<close>

record videoFile =
  rms :: "real list"
  duration :: real

text \<open>The block that fills \<^verbatim>\<open>videoOffsets\<close>: push the running offset, then add the
  duration.\<close>

fun videoOffsets_loop :: "real \<Rightarrow> videoFile list \<Rightarrow> real list" where
  "videoOffsets_loop offset [] = []"
| "videoOffsets_loop offset (res # rest) = offset # videoOffsets_loop (offset + duration res) rest"

definition videoOffsets :: "videoFile list \<Rightarrow> real list" where
  "videoOffsets perFileResults = videoOffsets_loop 0 perFileResults"

text \<open>
  \<^verbatim>\<open>mapGlobalTimeToFileRange(start, end, perFileResults, offsets)\<close>: the first file whose
  range contains \<open>start\<close> wins; \<^term>\<open>None\<close> is the \<^verbatim>\<open>null\<close> returned when the loop
  ends. An offset missing from \<open>offsets\<close> is \<^verbatim>\<open>undefined\<close>, against which both
  comparisons are false.
\<close>

function mapGlobalTimeToFileRange_loop ::
  "nat \<Rightarrow> real \<Rightarrow> real \<Rightarrow> videoFile list \<Rightarrow> real list \<Rightarrow> clip option" where
  "mapGlobalTimeToFileRange_loop i gstart gend perFileResults offsets =
     (if i < length perFileResults then
        (let off = offsets ! i; dur = duration (perFileResults ! i) in
         if i < length offsets \<and> gstart \<ge> off \<and> gstart < off + dur
         then Some \<lparr>fileIndex = i, c_start = gstart - off, c_end = min (gend - off) dur\<rparr>
         else mapGlobalTimeToFileRange_loop (i + 1) gstart gend perFileResults offsets)
      else None)"
  by pat_completeness auto
termination
  by (relation "measure (\<lambda>(i, gstart, gend, perFileResults, offsets). length perFileResults - i)") auto

declare mapGlobalTimeToFileRange_loop.simps [simp del]

definition mapGlobalTimeToFileRange ::
  "real \<Rightarrow> real \<Rightarrow> videoFile list \<Rightarrow> real list \<Rightarrow> clip option" where
  "mapGlobalTimeToFileRange gstart gend perFileResults offsets =
     mapGlobalTimeToFileRange_loop 0 gstart gend perFileResults offsets"

text \<open>
  \<^verbatim>\<open>dedupeClips(clips, minGapSeconds)\<close>. The comparator
  \<^verbatim>\<open>(a.fileIndex - b.fileIndex) || (a.start - b.start)\<close> is the lexicographic order on
  the pair of file index and start, and \<^verbatim>\<open>Array.prototype.sort\<close> is stable, as
  \<^const>\<open>sort_key\<close> is. \<open>dedupe_merge\<close> is one iteration of the loop on \<^verbatim>\<open>out\<close>: the
  assignment to \<^verbatim>\<open>last.end\<close> replaces the last element of \<^verbatim>\<open>out\<close>. (The source mutates
  the clip object, which is also an element of the caller's array; the clips of a list
  are distinct objects, so the returned value is the one computed here.)
\<close>

definition clip_key :: "clip \<Rightarrow> nat \<times> real" where
  "clip_key c = (fileIndex c, c_start c)"

definition dedupe_merge :: "real \<Rightarrow> clip list \<Rightarrow> clip \<Rightarrow> clip list" where
  "dedupe_merge minGapSeconds out c =
     (if out = [] \<or> fileIndex (last out) \<noteq> fileIndex c
         \<or> c_start c - c_end (last out) \<ge> minGapSeconds
      then out @ [c]
      else butlast out @ [(last out)\<lparr>c_end := max (c_end (last out)) (c_end c)\<rparr>])"

definition dedupe_floor :: "clip \<Rightarrow> clip" where
  "dedupe_floor c = c\<lparr>c_start := max 0 (c_start c), c_end := max (c_start c + 0.5) (c_end c)\<rparr>"

definition dedupeClips :: "clip list \<Rightarrow> real \<Rightarrow> clip list" where
  "dedupeClips clips minGapSeconds =
     map dedupe_floor (foldl (dedupe_merge minGapSeconds) [] (sort_key clip_key clips))"

text \<open>
  The threshold \<^verbatim>\<open>sorted[Math.floor(sorted.length * 0.8)] || 0.01\<close>: the right operand of
  \<^verbatim>\<open>||\<close> is taken when the left one is falsy, which for a number is \<^verbatim>\<open>undefined\<close> (the
  read is out of range) or zero.
\<close>

definition q80 :: "real list \<Rightarrow> real" where
  "q80 globalAudio =
     (let sorted = sort globalAudio;
          idx = nat \<lfloor>real (length sorted) * 0.8\<rfloor>
      in if idx < length sorted \<and> sorted ! idx \<noteq> 0 then sorted ! idx else 0.01)"

definition hopSec :: real where
  "hopSec = 1600 / 16000"

text \<open>The loop over \<^verbatim>\<open>peaks\<close> that builds the candidate clips; the \<^verbatim>\<open>break\<close> is tested
  after every peak, whether or not it produced a clip.\<close>

fun clips_loop ::
  "real \<Rightarrow> real \<Rightarrow> real \<Rightarrow> videoFile list \<Rightarrow> real list \<Rightarrow> nat list \<Rightarrow> clip list \<Rightarrow> clip list" where
  "clips_loop minLen maxLen maxClips perFileResults offsets [] clips = clips"
| "clips_loop minLen maxLen maxClips perFileResults offsets (p # peaks) clips =
     (let t = real p * hopSec;
          start = clamp (t - minLen / 2) 0 None;
          end0 = clamp (start + maxLen) 0 None;
          clips1 = (case mapGlobalTimeToFileRange start end0 perFileResults offsets of
                      Some c \<Rightarrow> clips @ [c] | None \<Rightarrow> clips)
      in if real (length clips1) \<ge> maxClips then clips1
         else clips_loop minLen maxLen maxClips perFileResults offsets peaks clips1)"

record analysis =
  clips :: "clip list"
  audioPCM :: "real list"
  sampleRate :: real

definition globalAudio_of :: "videoFile list \<Rightarrow> real list" where
  "globalAudio_of videoFiles = foldl (\<lambda>globalAudio file. globalAudio @ movingAverage (rms file) 5) [] videoFiles"

definition analyzeVideos :: "videoFile list \<Rightarrow> real \<Rightarrow> real \<Rightarrow> real \<Rightarrow> analysis" where
  "analyzeVideos videoFiles minLen maxLen maxClips =
     (let globalAudio = globalAudio_of videoFiles;
          peaks = detectPeaks globalAudio (q80 globalAudio) 3;
          candidates = clips_loop minLen maxLen maxClips videoFiles (videoOffsets videoFiles) peaks [];
          deduped = dedupeClips candidates 1.0
      in \<lparr>clips = deduped, audioPCM = globalAudio, sampleRate = 10\<rparr>)"

subsection \<open>Transcription of the analysed audio (asr.js)\<close>

text \<open>
  A transcription result \<^verbatim>\<open>{ text, chunks?: [{ text, timestamp: [start, end] }, ...] }\<close>
  as \<^verbatim>\<open>extractSegments\<close> probes it. An absent (\<^verbatim>\<open>undefined\<close> or \<^verbatim>\<open>null\<close>) field is
  \<^term>\<open>None\<close>; a \<^verbatim>\<open>timestamp\<close> is a two-element array whose elements may be
  \<^verbatim>\<open>null\<close>. The fields \<^verbatim>\<open>start\<close>, \<^verbatim>\<open>end\<close>, \<^verbatim>\<open>text\<close> and \<^verbatim>\<open>chunk\<close> of a chunk are
  \<open>ch_start\<close>, \<open>ch_end\<close>, \<open>ch_text\<close> and \<open>ch_chunk\<close>; the field \<^verbatim>\<open>text\<close> of a
  result is \<open>r_text\<close>.
\<close>

record asrChunk =
  timestamp :: "(real option \<times> real option) option"
  time :: "real option"
  timestart :: "real option"
  timeend :: "real option"
  ch_start :: "real option"
  ch_end :: "real option"
  ch_text :: "string option"
  ch_chunk :: "string option"
  raw_text :: "string option"

record asrResult =
  r_text :: "string option"
  chunks :: "asrChunk list option"
  segments :: "asrChunk list option"

text \<open>
  \<^verbatim>\<open>onProgress?.(msg)\<close>: the callback may be absent; when present its call returns
  (\<^term>\<open>True\<close>) or throws (\<^term>\<open>False\<close>).
\<close>

definition notify :: "(string \<Rightarrow> bool) option \<Rightarrow> string \<Rightarrow> bool" where
  "notify onProgress msg = (case onProgress of None \<Rightarrow> True | Some f \<Rightarrow> f msg)"

text \<open>
  \<^verbatim>\<open>runTranscriptionIfEnabled(audioPCM, sampleRate, onProgress)\<close>. The awaited
  \<^verbatim>\<open>getPipeline()\<close> is modelled by its settled outcome: \<^term>\<open>None\<close> when loading the
  model rejects, otherwise the model, a function from samples and sampling rate to a
  result, \<^term>\<open>None\<close> when inference throws. Every exception inside the \<^verbatim>\<open>try\<close> block
  is caught and turned into \<^verbatim>\<open>null\<close>, here \<^term>\<open>None\<close>. (The progress messages end in
  an ellipsis character in the source.)
\<close>

definition runTranscriptionIfEnabled ::
  "real list option \<Rightarrow> real \<Rightarrow> (string \<Rightarrow> bool) option
     \<Rightarrow> (real list \<Rightarrow> real \<Rightarrow> asrResult option) option \<Rightarrow> asrResult option" where
  "runTranscriptionIfEnabled pcm rate onProgress getPipeline =
     (case pcm of
        None \<Rightarrow> None
      | Some floatArr \<Rightarrow>
          if floatArr = [] then None
          else if \<not> notify onProgress ''Loading ASR model'' then None
          else (case getPipeline of
                  None \<Rightarrow> None
                | Some asr \<Rightarrow>
                    if \<not> notify onProgress ''Transcribing'' then None
                    else if rate < 100 then None
                    else asr floatArr rate))"

subsection \<open>Caption segments (export.js)\<close>

record segment =
  s_start :: real
  s_end :: real
  s_text :: string

text \<open>Truthiness of an optional number and of an optional string.\<close>

definition truthy_num :: "real option \<Rightarrow> bool" where
  "truthy_num v = (case v of None \<Rightarrow> False | Some x \<Rightarrow> x \<noteq> 0)"

definition truthy_str :: "string option \<Rightarrow> bool" where
  "truthy_str v = (case v of None \<Rightarrow> False | Some x \<Rightarrow> x \<noteq> [])"

text \<open>\<^verbatim>\<open>a ?? 0\<close>.\<close>

definition or_zero :: "real option \<Rightarrow> real" where
  "or_zero v = (case v of None \<Rightarrow> 0 | Some x \<Rightarrow> x)"

text \<open>
  The body of the loop over the chunks. The conditional operator binds weaker than
  \<^verbatim>\<open>||\<close>, so \<^verbatim>\<open>ts\<close> is the array \<^verbatim>\<open>[ch.timestart, ch.timeend]\<close> whenever one of
  \<^verbatim>\<open>ch.timestamp\<close>, \<^verbatim>\<open>ch.time\<close>, \<^verbatim>\<open>ch.timestart\<close> is truthy (an array always is), and
  \<^verbatim>\<open>ch.timestamp\<close> otherwise.
\<close>

definition chunk_segment :: "asrChunk \<Rightarrow> segment" where
  "chunk_segment ch =
     (let ts = (if timestamp ch \<noteq> None \<or> truthy_num (time ch) \<or> truthy_num (timestart ch)
                then Some (timestart ch, timeend ch) else timestamp ch);
          start = (case ts of Some (a, b) \<Rightarrow> or_zero a | None \<Rightarrow> or_zero (ch_start ch));
          end0 = (case ts of Some (a, b) \<Rightarrow> or_zero b | None \<Rightarrow> or_zero (ch_end ch))
      in \<lparr>s_start = max 0 start, s_end = max start end0,
          s_text = (if truthy_str (ch_text ch) then the (ch_text ch)
                    else if truthy_str (ch_chunk ch) then the (ch_chunk ch)
                    else if truthy_str (raw_text ch) then the (raw_text ch)
                    else [])\<rparr>)"

text \<open>\<^verbatim>\<open>asrResult.chunks || asrResult.segments || []\<close>; an array, even an empty one, is
  truthy.\<close>

definition chunk_list :: "asrResult \<Rightarrow> asrChunk list" where
  "chunk_list r =
     (case chunks r of Some cs \<Rightarrow> cs
      | None \<Rightarrow> (case segments r of Some ss \<Rightarrow> ss | None \<Rightarrow> []))"

definition MAX_SAFE_INTEGER :: real where
  "MAX_SAFE_INTEGER = 9007199254740991"

definition extractSegments :: "asrResult option \<Rightarrow> segment list option" where
  "extractSegments asrRes =
     (case asrRes of
        None \<Rightarrow> None
      | Some r \<Rightarrow>
          (let segs = map chunk_segment (chunk_list r)
           in if segs = [] \<and> truthy_str (r_text r)
              then Some (segs @ [\<lparr>s_start = 0, s_end = MAX_SAFE_INTEGER / 1000, s_text = the (r_text r)\<rparr>])
              else Some segs))"

subsection \<open>The caption cursor of the compositor (export.js)\<close>









subsection \<open>Concrete inputs\<close>

text \<open>
  Two files: one second of silence, then four seconds that are silent except for one
  loud hop at 2.7 s (sample 27 of the second RMS curve, sample 37 of the global curve).
\<close>

definition boundary_files :: "videoFile list" where
  "boundary_files =
     [\<lparr>rms = [0, 0, 0, 0, 0, 0, 0, 0, 0, 0], duration = 1\<rparr>,
      \<lparr>rms = [0, 0, 0, 0, 0, 0, 0, 0, 0, 0,
               0, 0, 0, 0, 0, 0, 0, 0, 0, 0,
               0, 0, 0, 0, 0, 0, 0, 1, 0, 0,
               0, 0, 0, 0, 0, 0, 0, 0, 0, 0], duration = 4\<rparr>]"

text \<open>A transcription result whose only chunk carries a text and no time field at
  all, next to the full transcript.\<close>

definition untimed_chunk :: asrChunk where
  "untimed_chunk =
     \<lparr>timestamp = None, time = None, timestart = None, timeend = None,
      ch_start = None, ch_end = None, ch_text = Some ''hello'',
      ch_chunk = None, raw_text = None\<rparr>"

definition untimed_result :: asrResult where
  "untimed_result = \<lparr>r_text = Some ''hello'', chunks = Some [untimed_chunk], segments = None\<rparr>"



subsection \<open>Loop invariants\<close>

text \<open>The invariant of the loop of \<open>detectPeaks\<close> before index \<open>n\<close>: the peaks found
  lie in \<open>[1, n)\<close>, \<open>lastIdx\<close> is the last of them, and they increase with gaps of at
  least \<open>d\<close>.\<close>

definition peaks_inv :: "real \<Rightarrow> nat \<Rightarrow> nat option \<times> nat list \<Rightarrow> bool" where
  "peaks_inv d n st = (case st of (lastIdx, peaks) \<Rightarrow>
     (\<forall>p \<in> set peaks. 1 \<le> p \<and> p < n) \<and>
     lastIdx = (if peaks = [] then None else Some (last peaks)) \<and>
     (\<forall>a b. a < b \<and> b < length peaks \<longrightarrow>
        peaks ! a < peaks ! b \<and> d \<le> real (peaks ! b) - real (peaks ! a)))"

text \<open>The sum of the (at most \<open>k\<close>) elements of \<open>arr\<close> that end just before index
  \<open>n\<close>, and the invariant of the loop of \<open>movingAverage\<close> before index \<open>n\<close>.\<close>

definition window_sum :: "real list \<Rightarrow> nat \<Rightarrow> nat \<Rightarrow> real" where
  "window_sum arr k n = (\<Sum>j = n - k..<n. arr ! j)"

definition avg_inv :: "real list \<Rightarrow> nat \<Rightarrow> nat \<Rightarrow> real \<times> real list \<Rightarrow> bool" where
  "avg_inv arr k n st = (case st of (sum0, out) \<Rightarrow>
     sum0 = window_sum arr k n \<and> length out = length arr \<and>
     (\<forall>i < n. out ! i = window_sum arr k (Suc i) / real (min (Suc i) k)))"

text \<open>For \<open>dedupeClips\<close>: \<open>sep\<close> is the test under which the loop emits a new clip
  after \<open>a\<close>; \<open>floor_ok\<close> says that the final clamp leaves a clip as it is; \<open>merged\<close>
  is the invariant of the loop, with the clips still to come.\<close>

definition sep :: "real \<Rightarrow> clip \<Rightarrow> clip \<Rightarrow> bool" where
  "sep g a b = (fileIndex a \<noteq> fileIndex b \<or> c_start b - c_end a \<ge> g)"

definition floor_ok :: "clip \<Rightarrow> bool" where
  "floor_ok c = (0 \<le> c_start c \<and> c_start c + 0.5 \<le> c_end c)"

definition merged :: "real \<Rightarrow> clip list \<Rightarrow> clip list \<Rightarrow> bool" where
  "merged g out rest =
     (sorted (map clip_key (out @ rest)) \<and> successively (sep g) out \<and> list_all floor_ok out)"

text \<open>What a candidate clip of \<open>mapGlobalTimeToFileRange\<close> satisfies, and the merge
  pass keeps: it names a file, starts inside it and ends no later than it.\<close>

definition cand_ok :: "videoFile list \<Rightarrow> clip \<Rightarrow> bool" where
  "cand_ok files c =
     (fileIndex c < length files \<and> 0 \<le> c_start c
      \<and> c_start c < duration (files ! fileIndex c)
      \<and> c_end c \<le> duration (files ! fileIndex c))"







section \<open>Peak detection\<close>

lemma peaks_inv_step:
  assumes "peaks_inv d n st" "1 \<le> n"
  shows "peaks_inv d (Suc n) (detectPeaks_step arr th d st n)"
proof -
  obtain lastIdx peaks where st: "st = (lastIdx, peaks)" by (cases st)
  from assms st have bnd: "\<forall>p \<in> set peaks. 1 \<le> p \<and> p < n"
    and li: "lastIdx = (if peaks = [] then None else Some (last peaks))"
    and gap: "\<forall>a b. a < b \<and> b < length peaks \<longrightarrow>
                peaks ! a < peaks ! b \<and> d \<le> real (peaks ! b) - real (peaks ! a)"
    by (auto simp: peaks_inv_def)
  let ?far = "(case lastIdx of None \<Rightarrow> True | Some l \<Rightarrow> real n - real l \<ge> d)"
  show ?thesis
  proof (cases "arr ! n > th \<and> arr ! n > arr ! (n - 1) \<and> arr ! n \<ge> arr ! (n + 1) \<and> ?far")
    case False
    then have "detectPeaks_step arr th d st n = st"
      by (auto simp: detectPeaks_step_def st)
    moreover have "peaks_inv d (Suc n) st"
      using bnd li gap by (auto simp: peaks_inv_def st less_Suc_eq)
    ultimately show ?thesis by simp
  next
    case True
    then have eq: "detectPeaks_step arr th d st n = (Some n, peaks @ [n])"
      by (auto simp: detectPeaks_step_def st)
    have le_last: "peaks ! a \<le> last peaks" if "a < length peaks" for a
    proof (cases "a = length peaks - 1")
      case True
      moreover have "peaks \<noteq> []" using that by auto
      ultimately show ?thesis by (simp add: last_conv_nth)
    next
      case False
      then have "a < length peaks - 1" using that by simp
      then have "peaks ! a < peaks ! (length peaks - 1)" using gap that by simp
      moreover have "peaks \<noteq> []" using that by auto
      ultimately show ?thesis by (simp add: last_conv_nth)
    qed
    have far: "d \<le> real n - real (last peaks)" if "peaks \<noteq> []"
      using True li that by simp
    have new: "peaks ! a < n \<and> d \<le> real n - real (peaks ! a)" if "a < length peaks" for a
    proof -
      have ne: "peaks \<noteq> []" using that by auto
      have "peaks ! a < n" using bnd that by simp
      moreover have "real (peaks ! a) \<le> real (last peaks)" using le_last[OF that] by simp
      ultimately show ?thesis using far[OF ne] by linarith
    qed
    have "\<forall>a b. a < b \<and> b < length (peaks @ [n]) \<longrightarrow>
            (peaks @ [n]) ! a < (peaks @ [n]) ! b
            \<and> d \<le> real ((peaks @ [n]) ! b) - real ((peaks @ [n]) ! a)"
    proof (intro allI impI)
      fix a b assume ab: "a < b \<and> b < length (peaks @ [n])"
      show "(peaks @ [n]) ! a < (peaks @ [n]) ! b
            \<and> d \<le> real ((peaks @ [n]) ! b) - real ((peaks @ [n]) ! a)"
      proof (cases "b < length peaks")
        case True
        then show ?thesis using ab gap by (simp add: nth_append)
      next
        case False
        then have "b = length peaks" using ab by simp
        then show ?thesis using ab new[of a] by (simp add: nth_append)
      qed
    qed
    then show ?thesis
      using bnd assms(2) unfolding eq peaks_inv_def by (auto simp: less_Suc_eq)
  qed
qed

lemma peaks_inv_foldl:
  assumes "peaks_inv d lo st" "1 \<le> lo" "lo \<le> hi"
  shows "peaks_inv d hi (foldl (detectPeaks_step arr th d) st [lo..<hi])"
  using assms(3,1,2)
proof (induction hi rule: dec_induct)
  case base
  then show ?case by simp
next
  case (step n)
  then show ?case by (simp add: peaks_inv_step)
qed

lemma peaks_inv_detectPeaks:
  "peaks_inv d (max 1 (length arr - 1))
     (foldl (detectPeaks_step arr th d) (None, []) [1..<length arr - 1])"
proof (cases "1 \<le> length arr - 1")
  case True
  have "peaks_inv d 1 (None, [])" by (simp add: peaks_inv_def)
  from peaks_inv_foldl[OF this _ True] show ?thesis using True by (simp add: max_def)
next
  case False
  then show ?thesis by (simp add: peaks_inv_def)
qed

lemma detectPeaks_gap:
  assumes "a < b" "b < length (detectPeaks arr th d)"
  shows "detectPeaks arr th d ! a < detectPeaks arr th d ! b"
    and "d \<le> real (detectPeaks arr th d ! b) - real (detectPeaks arr th d ! a)"
proof -
  obtain l ps where f: "foldl (detectPeaks_step arr th d) (None, []) [1..<length arr - 1] = (l, ps)"
    by (cases "foldl (detectPeaks_step arr th d) (None, []) [1..<length arr - 1]")
  from peaks_inv_detectPeaks[of d arr th] f assms
  show "detectPeaks arr th d ! a < detectPeaks arr th d ! b"
    and "d \<le> real (detectPeaks arr th d ! b) - real (detectPeaks arr th d ! a)"
    by (simp_all add: peaks_inv_def detectPeaks_def)
qed

text \<open>
  Claim C7. For every curve, threshold and minimum distance \<open>d\<close>, any two indices that
  \<open>detectPeaks\<close> returns differ by at least \<open>d\<close>; with the distance 3 that
  \<open>analyzeVideos\<close> passes, two returned peaks are never less than 3 samples apart.
\<close>

theorem detectPeaks_min_distance:
  "(\<forall>a b. a < b \<and> b < length (detectPeaks arr threshold d) \<longrightarrow>
      d \<le> real (detectPeaks arr threshold d ! b) - real (detectPeaks arr threshold d ! a))
   \<and> (\<forall>a b. a < b \<and> b < length (detectPeaks arr threshold 3) \<longrightarrow>
      detectPeaks arr threshold 3 ! a + 3 \<le> detectPeaks arr threshold 3 ! b)"
proof (intro conjI allI impI)
  fix a b assume "a < b \<and> b < length (detectPeaks arr threshold d)"
  then show "d \<le> real (detectPeaks arr threshold d ! b) - real (detectPeaks arr threshold d ! a)"
    using detectPeaks_gap(2) by blast
next
  fix a b assume "a < b \<and> b < length (detectPeaks arr threshold 3)"
  then have "3 \<le> real (detectPeaks arr threshold 3 ! b) - real (detectPeaks arr threshold 3 ! a)"
    using detectPeaks_gap(2) by blast
  then show "detectPeaks arr threshold 3 ! a + 3 \<le> detectPeaks arr threshold 3 ! b"
    by linarith
qed

theorem detectPeaks_min_distance_witness:
  "detectPeaks [0, 1, 5, 1, 0, 1, 6, 1, 0] 2 3 = [2, 6]
   \<and> (0::nat) < 1 \<and> 1 < length (detectPeaks [0, 1, 5, 1, 0, 1, 6, 1, 0] 2 3)
   \<and> detectPeaks [0, 1, 5, 1, 0, 1, 6, 1, 0] 2 3 ! 0 + 3
       \<le> detectPeaks [0, 1, 5, 1, 0, 1, 6, 1, 0] 2 3 ! 1"
  using detectPeaks_min_distance[of "[0, 1, 5, 1, 0, 1, 6, 1, 0]" 2 3]
  by (simp add: detectPeaks_def detectPeaks_step_def upt_rec)

text \<open>
  Claim C10. \<open>detectPeaks\<close> never returns index 0 or the last index: every returned
  index \<open>i\<close> satisfies \<open>1 \<le> i \<le> length - 2\<close>, so a maximum at the first or the last
  sample of the curve is never a peak.
\<close>

theorem detectPeaks_interior:
  "\<forall>i \<in> set (detectPeaks arr threshold minDistance). 1 \<le> i \<and> i + 2 \<le> length arr"
proof
  fix i assume i: "i \<in> set (detectPeaks arr threshold minDistance)"
  obtain l ps where
    f: "foldl (detectPeaks_step arr threshold minDistance) (None, []) [1..<length arr - 1] = (l, ps)"
    by (cases "foldl (detectPeaks_step arr threshold minDistance) (None, []) [1..<length arr - 1]")
  from peaks_inv_detectPeaks[of minDistance arr threshold] f
  have "\<forall>p \<in> set ps. 1 \<le> p \<and> p < max 1 (length arr - 1)" by (simp add: peaks_inv_def)
  moreover have "i \<in> set ps" using i f by (simp add: detectPeaks_def)
  ultimately have "1 \<le> i \<and> i < max 1 (length arr - 1)" by blast
  then show "1 \<le> i \<and> i + 2 \<le> length arr" by (auto simp: max_def split: if_splits)
qed

theorem detectPeaks_interior_witness:
  "detectPeaks [9, 1, 5, 1, 9] 2 1 = [2] \<and> 2 \<in> set (detectPeaks [9, 1, 5, 1, 9] 2 1)
   \<and> (1::nat) \<le> 2 \<and> (2::nat) + 2 \<le> length [9, 1, 5, 1, 9 :: real]"
  using detectPeaks_interior[of "[9, 1, 5, 1, 9]" 2 1]
  by (simp add: detectPeaks_def detectPeaks_step_def upt_rec)

section \<open>Moving average\<close>

lemma window_sum_Suc:
  "window_sum arr k (Suc n) =
     (if n \<ge> k then window_sum arr k n + arr ! n - arr ! (n - k)
      else window_sum arr k n + arr ! n)"
proof (cases "n \<ge> k")
  case False
  then show ?thesis by (simp add: window_sum_def)
next
  case True
  show ?thesis
  proof (cases "k = 0")
    case True
    then show ?thesis by (simp add: window_sum_def)
  next
    case False
    with True have eq: "Suc n - k = Suc (n - k)" and le: "n - k < n" by auto
    have "(\<Sum>j = n - k..<n. arr ! j) = arr ! (n - k) + (\<Sum>j = Suc (n - k)..<n. arr ! j)"
      using le by (simp add: sum.atLeast_Suc_lessThan)
    then show ?thesis using True le by (simp add: window_sum_def eq)
  qed
qed

lemma avg_inv_step:
  assumes "avg_inv arr k n st" "n < length arr"
  shows "avg_inv arr k (Suc n) (movingAverage_step arr k st n)"
proof -
  obtain sum0 out where st: "st = (sum0, out)" by (cases st)
  from assms st have s: "sum0 = window_sum arr k n" and l: "length out = length arr"
    and o: "\<forall>i < n. out ! i = window_sum arr k (Suc i) / real (min (Suc i) k)"
    by (auto simp: avg_inv_def)
  let ?s2 = "window_sum arr k (Suc n)"
  have eq: "movingAverage_step arr k st n = (?s2, out[n := ?s2 / real (min (Suc n) k)])"
    by (simp add: movingAverage_step_def st s window_sum_Suc Let_def)
  show ?thesis
    unfolding eq avg_inv_def using l o assms(2)
    by (auto simp: less_Suc_eq nth_list_update)
qed

lemma avg_inv_foldl:
  "n \<le> length arr \<Longrightarrow>
   avg_inv arr k n (foldl (movingAverage_step arr k) (0, replicate (length arr) 0) [0..<n])"
proof (induction n)
  case 0
  then show ?case by (simp add: avg_inv_def window_sum_def)
next
  case (Suc n)
  then show ?case by (simp add: avg_inv_step)
qed

lemma movingAverage_length: "length (movingAverage arr k) = length arr"
  using avg_inv_foldl[of "length arr" arr k]
  by (auto simp: movingAverage_def avg_inv_def split: prod.splits)

lemma movingAverage_nth:
  "i < length arr \<Longrightarrow>
   movingAverage arr k ! i = window_sum arr k (Suc i) / real (min (Suc i) k)"
  using avg_inv_foldl[of "length arr" arr k]
  by (auto simp: movingAverage_def avg_inv_def split: prod.splits)

lemma window_sum_prefix:
  assumes "i < length arr" "Suc i \<le> k"
  shows "window_sum arr k (Suc i) = sum_list (take (Suc i) arr)"
proof -
  have len: "length (take (Suc i) arr) = Suc i"
    using assms(1) by simp
  have "sum_list (take (Suc i) arr) = (\<Sum>j = 0..<Suc i. take (Suc i) arr ! j)"
    unfolding sum_list_sum_nth len ..
  also have "\<dots> = (\<Sum>j = 0..<Suc i. arr ! j)"
    by (rule sum.cong) auto
  finally show ?thesis using assms by (simp add: window_sum_def)
qed

text \<open>
  Claim C8. \<open>movingAverage c k\<close> is as long as \<open>c\<close>, and at every index \<open>i < k - 1\<close>
  of \<open>c\<close> its value is the mean of \<open>c[0..i]\<close>: the divisor \<open>min (i + 1) k\<close> is
  \<open>i + 1\<close> there, the number of samples summed.
\<close>

theorem movingAverage_prefix_mean:
  "length (movingAverage c k) = length c \<and>
   (\<forall>i. i < length c \<and> int i < int k - 1 \<longrightarrow>
      min (i + 1) k = i + 1 \<and>
      movingAverage c k ! i = sum_list (take (i + 1) c) / real (min (i + 1) k))"
proof (intro conjI allI impI)
  show "length (movingAverage c k) = length c" by (rule movingAverage_length)
next
  fix i assume a: "i < length c \<and> int i < int k - 1"
  then have le: "Suc i \<le> k" by linarith
  then show "min (i + 1) k = i + 1" by simp
  show "movingAverage c k ! i = sum_list (take (i + 1) c) / real (min (i + 1) k)"
    using a le by (simp add: movingAverage_nth window_sum_prefix)
qed

theorem movingAverage_prefix_mean_witness:
  "movingAverage [1, 2, 3, 4, 5, 6, 7] 3 = [1, 3 / 2, 2, 3, 4, 5, 6]
   \<and> (1::nat) < length [1, 2, 3, 4, 5, 6, 7 :: real] \<and> int 1 < int 3 - 1
   \<and> movingAverage [1, 2, 3, 4, 5, 6, 7] 3 ! 1 = sum_list (take (1 + 1) [1, 2, 3, 4, 5, 6, 7]) / 2"
  using movingAverage_prefix_mean[of "[1, 2, 3, 4, 5, 6, 7]" 3]
  by (simp add: movingAverage_def movingAverage_step_def upt_rec Let_def)

section \<open>Mapping a global window to one file\<close>

lemma videoOffsets_loop_length: "length (videoOffsets_loop off rs) = length rs"
  by (induction rs arbitrary: off) auto

lemma videoOffsets_loop_nth:
  "i < length rs \<Longrightarrow> videoOffsets_loop off rs ! i = off + sum_list (map duration (take i rs))"
proof (induction rs arbitrary: off i)
  case Nil
  then show ?case by simp
next
  case (Cons r rs)
  then show ?case by (cases i) auto
qed

lemma offsets_mono:
  assumes nn: "\<forall>r \<in> set rs. 0 \<le> duration r" and ji: "j < i" and i: "i < length rs"
  shows "videoOffsets_loop off rs ! j + duration (rs ! j) \<le> videoOffsets_loop off rs ! i"
proof -
  have j: "j < length rs" using ji i by simp
  have tk: "take i rs = take (Suc j) rs @ drop (Suc j) (take i rs)"
    using ji by (metis Suc_leI append_take_drop_id min.absorb2 take_take min.commute)
  have nonneg: "0 \<le> sum_list (map duration (drop (Suc j) (take i rs)))"
  proof (rule sum_list_nonneg)
    fix x assume "x \<in> set (map duration (drop (Suc j) (take i rs)))"
    then obtain r where "r \<in> set (drop (Suc j) (take i rs))" "x = duration r" by auto
    then have "r \<in> set rs" by (meson in_set_dropD in_set_takeD)
    then show "0 \<le> x" using nn \<open>x = duration r\<close> by simp
  qed
  have "sum_list (map duration (take i rs)) =
        sum_list (map duration (take (Suc j) rs))
          + sum_list (map duration (drop (Suc j) (take i rs)))"
    by (subst tk) simp
  also have "sum_list (map duration (take (Suc j) rs)) =
             sum_list (map duration (take j rs)) + duration (rs ! j)"
    using j by (simp add: take_Suc_conv_app_nth)
  finally show ?thesis
    using nonneg by (simp add: videoOffsets_loop_nth j i)
qed

lemma mapGlobalTimeToFileRange_loop_hit:
  assumes "i < length rs" "i < length offs" "offs ! i \<le> s" "s < offs ! i + duration (rs ! i)"
    and "\<forall>j < i. j0 \<le> j \<longrightarrow> \<not> (offs ! j \<le> s \<and> s < offs ! j + duration (rs ! j))"
    and "j0 \<le> i"
  shows "mapGlobalTimeToFileRange_loop j0 s e rs offs =
           Some \<lparr>fileIndex = i, c_start = s - offs ! i,
                 c_end = min (e - offs ! i) (duration (rs ! i))\<rparr>"
  using assms(6,5)
proof (induction "i - j0" arbitrary: j0)
  case 0
  then have "j0 = i" by simp
  then show ?case using assms(1-4)
    by (subst mapGlobalTimeToFileRange_loop.simps) (simp add: Let_def)
next
  case (Suc n)
  then have lt: "j0 < i" by simp
  then have miss: "\<not> (offs ! j0 \<le> s \<and> s < offs ! j0 + duration (rs ! j0))"
    using Suc.prems(2) by simp
  have "mapGlobalTimeToFileRange_loop j0 s e rs offs =
        mapGlobalTimeToFileRange_loop (j0 + 1) s e rs offs"
    using lt assms(1) miss
    by (subst mapGlobalTimeToFileRange_loop.simps) (auto simp: Let_def)
  also have "\<dots> = Some \<lparr>fileIndex = i, c_start = s - offs ! i,
                         c_end = min (e - offs ! i) (duration (rs ! i))\<rparr>"
  proof (rule Suc.hyps(1))
    show "n = i - (j0 + 1)" using Suc.hyps(2) by simp
    show "j0 + 1 \<le> i" using lt by simp
    show "\<forall>j<i. j0 + 1 \<le> j \<longrightarrow> \<not> (offs ! j \<le> s \<and> s < offs ! j + duration (rs ! j))"
      using Suc.prems(2) by simp
  qed
  finally show ?case .
qed

text \<open>
  Claim C6. A window is never split: when its start lies in the global range
  \<open>[offset\<^sub>i, offset\<^sub>i + duration\<^sub>i)\<close> of file \<open>i\<close> (offsets being the running sums
  of the durations, none of them negative), the result is file \<open>i\<close> with local start
  \<open>start - offset\<^sub>i\<close> and local end \<open>min (end - offset\<^sub>i) duration\<^sub>i\<close>. With files of
  10 s and 15 s, the window \<open>[8, 14]\<close> maps to file 0, local \<open>[8, 10]\<close>.
\<close>

theorem mapGlobalTimeToFileRange_not_split:
  assumes "\<forall>r \<in> set perFileResults. 0 \<le> duration r"
    and "i < length perFileResults"
    and "videoOffsets perFileResults ! i \<le> gstart"
    and "gstart < videoOffsets perFileResults ! i + duration (perFileResults ! i)"
  shows "mapGlobalTimeToFileRange gstart gend perFileResults (videoOffsets perFileResults) =
           Some \<lparr>fileIndex = i,
                 c_start = gstart - videoOffsets perFileResults ! i,
                 c_end = min (gend - videoOffsets perFileResults ! i)
                             (duration (perFileResults ! i))\<rparr>"
  unfolding mapGlobalTimeToFileRange_def
proof (rule mapGlobalTimeToFileRange_loop_hit)
  show "i < length perFileResults" by (rule assms(2))
  show "i < length (videoOffsets perFileResults)"
    using assms(2) by (simp add: videoOffsets_def videoOffsets_loop_length)
  show "videoOffsets perFileResults ! i \<le> gstart" by (rule assms(3))
  show "gstart < videoOffsets perFileResults ! i + duration (perFileResults ! i)"
    by (rule assms(4))
  show "0 \<le> i" by simp
  show "\<forall>j<i. 0 \<le> j \<longrightarrow>
         \<not> (videoOffsets perFileResults ! j \<le> gstart \<and>
            gstart < videoOffsets perFileResults ! j + duration (perFileResults ! j))"
  proof (intro allI impI)
    fix j assume "j < i"
    from offsets_mono[OF assms(1) this assms(2), of 0]
    have "videoOffsets perFileResults ! j + duration (perFileResults ! j)
            \<le> videoOffsets perFileResults ! i"
      by (simp add: videoOffsets_def)
    then show "\<not> (videoOffsets perFileResults ! j \<le> gstart \<and>
            gstart < videoOffsets perFileResults ! j + duration (perFileResults ! j))"
      using assms(3) by linarith
  qed
qed

theorem mapGlobalTimeToFileRange_not_split_witness:
  "videoOffsets [\<lparr>rms = [], duration = 10\<rparr>, \<lparr>rms = [], duration = 15\<rparr>] = [0, 10]
   \<and> mapGlobalTimeToFileRange 8 14 [\<lparr>rms = [], duration = 10\<rparr>, \<lparr>rms = [], duration = 15\<rparr>]
        (videoOffsets [\<lparr>rms = [], duration = 10\<rparr>, \<lparr>rms = [], duration = 15\<rparr>])
      = Some \<lparr>fileIndex = 0, c_start = 8, c_end = 10\<rparr>"
  using mapGlobalTimeToFileRange_not_split
          [of "[\<lparr>rms = [], duration = 10\<rparr>, \<lparr>rms = [], duration = 15\<rparr>]" 0 8 14]
  by (simp add: videoOffsets_def)

section \<open>The peak threshold\<close>

lemma q80_index_in_range:
  assumes "c \<noteq> []"
  shows "nat \<lfloor>real (length c) * 0.8\<rfloor> < length c"
proof -
  have pos: "0 < real (length c)" using assms by simp
  then have "real (length c) * 0.8 < real (length c)" by simp
  then have "\<lfloor>real (length c) * 0.8\<rfloor> < int (length c)" by linarith
  then show ?thesis by linarith
qed

text \<open>
  Claim C5, as the code has it. The threshold of a non-empty curve is the element at
  index \<open>floor (0.8 * length)\<close> of the ascending sorted copy when that element is not
  zero; the constant 0.01 is used when the curve is empty and also when that element is
  zero.
\<close>

theorem q80_threshold:
  "(c = [] \<longrightarrow> q80 c = 0.01) \<and>
   (c \<noteq> [] \<longrightarrow>
      nat \<lfloor>real (length c) * 0.8\<rfloor> < length c \<and>
      (sort c ! nat \<lfloor>real (length c) * 0.8\<rfloor> \<noteq> 0
         \<longrightarrow> q80 c = sort c ! nat \<lfloor>real (length c) * 0.8\<rfloor>) \<and>
      (sort c ! nat \<lfloor>real (length c) * 0.8\<rfloor> = 0 \<longrightarrow> q80 c = 0.01))"
  using q80_index_in_range[of c] by (simp add: q80_def Let_def)

theorem q80_threshold_witness:
  "q80 [] = 0.01 \<and> q80 [0.3, 0.1, 0.2] = 0.3 \<and> q80 [0, 0, 0] = 0.01"
  using q80_threshold[of "[]"] q80_threshold[of "[0.3, 0.1, 0.2]"] q80_threshold[of "[0, 0, 0]"]
  by simp

text \<open>
  The claim as stated fails on a silent curve: it is not empty, the element at index
  \<open>floor (0.8 * 3) = 2\<close> of its sorted copy is 0, and the threshold is 0.01.
\<close>

theorem q80_zero_percentile_counterexample:
  "[0, 0, 0] \<noteq> ([] :: real list)
   \<and> sort [0, 0, 0 :: real] ! nat \<lfloor>real (length [0, 0, 0 :: real]) * 0.8\<rfloor> = 0
   \<and> q80 [0, 0, 0] = 0.01
   \<and> q80 [0, 0, 0] \<noteq> sort [0, 0, 0] ! nat \<lfloor>real (length [0, 0, 0 :: real]) * 0.8\<rfloor>"
  by (simp add: q80_def Let_def)

section \<open>Transcription after analysis\<close>

text \<open>
  Claim C9. Whatever the files and parameters, and whatever the progress callback and
  the speech model do, \<open>runTranscriptionIfEnabled\<close> applied to the \<open>audioPCM\<close> and
  \<open>sampleRate\<close> that \<open>analyzeVideos\<close> returns gives \<open>null\<close>: the sample rate returned is
  10, below the guard of 100.
\<close>

theorem runTranscription_after_analysis_null:
  "sampleRate (analyzeVideos videoFiles minLen maxLen maxClips) = 10 \<and>
   runTranscriptionIfEnabled (Some (audioPCM (analyzeVideos videoFiles minLen maxLen maxClips)))
      (sampleRate (analyzeVideos videoFiles minLen maxLen maxClips)) onProgress getPipeline = None"
  by (simp add: runTranscriptionIfEnabled_def analyzeVideos_def Let_def split: option.splits)

theorem runTranscription_after_analysis_null_witness:
  "audioPCM (analyzeVideos [\<lparr>rms = [1, 3], duration = 1\<rparr>] 6 20 8) = [1, 2]
   \<and> runTranscriptionIfEnabled (Some (audioPCM (analyzeVideos [\<lparr>rms = [1, 3], duration = 1\<rparr>] 6 20 8)))
        (sampleRate (analyzeVideos [\<lparr>rms = [1, 3], duration = 1\<rparr>] 6 20 8)) None
        (Some (\<lambda>pcm rate. Some \<lparr>r_text = Some ''hi'', chunks = None, segments = None\<rparr>)) = None"
  using runTranscription_after_analysis_null
          [of "[\<lparr>rms = [1, 3], duration = 1\<rparr>]" 6 20 8 None
              "Some (\<lambda>pcm rate. Some \<lparr>r_text = Some ''hi'', chunks = None, segments = None\<rparr>)"]
  by (simp add: analyzeVideos_def globalAudio_of_def movingAverage_def movingAverage_step_def
        upt_rec Let_def)

section \<open>The fallback caption\<close>

text \<open>
  Claim C4, as the code has it. For every transcription result with no chunks at all
  (the chunk list is absent or empty) and a non-empty transcript text, \<open>extractSegments\<close>
  returns exactly one segment, from 0 to \<open>MAX_SAFE_INTEGER / 1000\<close>, carrying the whole
  text; the result \<open>{text: "hello"}\<close> yields that segment with the text \<open>hello\<close>.
\<close>

theorem extractSegments_fallback:
  assumes "chunk_list r = []" and "r_text r = Some t" and "t \<noteq> []"
  shows "extractSegments (Some r) =
           Some [\<lparr>s_start = 0, s_end = MAX_SAFE_INTEGER / 1000, s_text = t\<rparr>]"
  using assms by (simp add: extractSegments_def truthy_str_def)

theorem extractSegments_fallback_witness:
  "chunk_list \<lparr>r_text = Some ''hello'', chunks = None, segments = None\<rparr> = []
   \<and> extractSegments (Some \<lparr>r_text = Some ''hello'', chunks = None, segments = None\<rparr>)
     = Some [\<lparr>s_start = 0, s_end = 9007199254740991 / 1000, s_text = ''hello''\<rparr>]"
  using extractSegments_fallback
          [of "\<lparr>r_text = Some ''hello'', chunks = None, segments = None\<rparr>" "''hello''"]
  by (simp add: chunk_list_def MAX_SAFE_INTEGER_def)

text \<open>
  The claim as stated fails when chunks exist but carry no timestamps: the result
  \<open>{text: "hello", chunks: [{text: "hello"}]}\<close> has no chunk-level time field and a
  full transcript, and yields the single segment from 0 to 0, not the unbounded one.
\<close>

theorem extractSegments_untimed_chunk_counterexample:
  "chunk_list untimed_result = [untimed_chunk]
   \<and> timestamp untimed_chunk = None \<and> time untimed_chunk = None
   \<and> timestart untimed_chunk = None \<and> timeend untimed_chunk = None
   \<and> ch_start untimed_chunk = None \<and> ch_end untimed_chunk = None
   \<and> r_text untimed_result = Some ''hello''
   \<and> extractSegments (Some untimed_result)
        = Some [\<lparr>s_start = 0, s_end = 0, s_text = ''hello''\<rparr>]
   \<and> extractSegments (Some untimed_result)
        \<noteq> Some [\<lparr>s_start = 0, s_end = MAX_SAFE_INTEGER / 1000, s_text = ''hello''\<rparr>]"
  by (simp add: untimed_result_def untimed_chunk_def chunk_list_def extractSegments_def
      chunk_segment_def truthy_num_def truthy_str_def or_zero_def MAX_SAFE_INTEGER_def Let_def)

section \<open>Deduplication\<close>

lemma dedupe_floor_id: "floor_ok c \<Longrightarrow> dedupe_floor c = c"
  by (simp add: floor_ok_def dedupe_floor_def max_def)

lemma dedupe_merge_push:
  "out = [] \<or> sep g (last out) c \<Longrightarrow> dedupe_merge g out c = out @ [c]"
  by (auto simp: dedupe_merge_def sep_def)

lemma merged_step:
  assumes "merged g out (c # cs)" "floor_ok c"
  shows "merged g (dedupe_merge g out c) cs"
proof (cases "out = [] \<or> sep g (last out) c")
  case True
  then have eq: "dedupe_merge g out c = out @ [c]" by (rule dedupe_merge_push)
  show ?thesis
    unfolding eq merged_def using assms True
    by (auto simp: merged_def successively_append_iff)
next
  case False
  then have ne: "out \<noteq> []" and nsep: "\<not> sep g (last out) c" by auto
  let ?l = "(last out)\<lparr>c_end := max (c_end (last out)) (c_end c)\<rparr>"
  have eq: "dedupe_merge g out c = butlast out @ [?l]"
    using ne nsep by (auto simp: dedupe_merge_def sep_def)
  have split: "out = butlast out @ [last out]" using ne by simp
  have key: "clip_key ?l = clip_key (last out)" by (simp add: clip_key_def)
  have keys: "map clip_key (butlast out @ [?l]) = map clip_key out"
    by (subst (2) split) (simp add: key del: append_butlast_last_id)
  have srt: "sorted (map clip_key (out @ cs))"
    using assms(1) by (auto simp: merged_def sorted_append)
  have srt': "sorted (map clip_key ((butlast out @ [?l]) @ cs))"
    using srt keys by (metis map_append)
  have suc: "successively (sep g) (butlast out @ [last out])"
    using assms(1) ne by (simp add: merged_def)
  have suc': "successively (sep g) (butlast out @ [?l])"
    using suc by (auto simp: successively_append_iff sep_def)
  have fl: "list_all floor_ok out" using assms(1) by (simp add: merged_def)
  then have "floor_ok (last out)" using ne by (simp add: list_all_iff)
  then have fl_l: "floor_ok ?l" by (simp add: floor_ok_def max_def)
  have "list_all floor_ok (butlast out)"
    using fl by (auto simp: list_all_iff dest: in_set_butlastD)
  then have fl': "list_all floor_ok (butlast out @ [?l])" using fl_l by simp
  show ?thesis unfolding eq merged_def using srt' suc' fl' by simp
qed

lemma merged_foldl:
  "merged g out cs \<Longrightarrow> list_all floor_ok cs \<Longrightarrow> merged g (foldl (dedupe_merge g) out cs) []"
proof (induction cs arbitrary: out)
  case Nil
  then show ?case by simp
next
  case (Cons c cs)
  then show ?case by (simp add: merged_step)
qed

lemma foldl_separated:
  "successively (sep g) (acc @ ys) \<Longrightarrow> foldl (dedupe_merge g) acc ys = acc @ ys"
proof (induction ys arbitrary: acc)
  case Nil
  then show ?case by simp
next
  case (Cons y ys)
  from Cons.prems have "acc = [] \<or> sep g (last acc) y"
    by (auto simp: successively_append_iff)
  then have eq: "dedupe_merge g acc y = acc @ [y]" by (rule dedupe_merge_push)
  have "foldl (dedupe_merge g) (acc @ [y]) ys = (acc @ [y]) @ ys"
    using Cons.prems by (intro Cons.IH) simp
  then show ?case by (simp add: eq)
qed

lemma dedupeClips_fixed:
  assumes "merged g out []"
  shows "dedupeClips out g = out"
proof -
  have srt: "sorted (map clip_key out)" and suc: "successively (sep g) out"
    and fl: "list_all floor_ok out"
    using assms by (simp_all add: merged_def)
  have "sort_key clip_key out = out" using srt by (rule sort_key_id_if_sorted)
  moreover have "foldl (dedupe_merge g) [] out = out" using foldl_separated[of g "[]" out] suc by simp
  moreover have "map dedupe_floor out = out"
    using fl by (simp add: list_all_iff dedupe_floor_id map_idI)
  ultimately show ?thesis by (simp add: dedupeClips_def)
qed

lemma dedupeClips_merged:
  assumes "list_all floor_ok candidates"
  shows "merged g (dedupeClips candidates g) []"
proof -
  let ?xs = "sort_key clip_key candidates"
  have "merged g [] ?xs" by (simp add: merged_def)
  moreover have "list_all floor_ok ?xs" using assms by (simp add: list_all_iff)
  ultimately have m: "merged g (foldl (dedupe_merge g) [] ?xs) []" by (rule merged_foldl)
  then have "map dedupe_floor (foldl (dedupe_merge g) [] ?xs) = foldl (dedupe_merge g) [] ?xs"
    by (simp add: merged_def list_all_iff dedupe_floor_id map_idI)
  then show ?thesis using m by (simp add: dedupeClips_def)
qed

text \<open>
  Claim C3, as the code has it. On a clip list in which every clip already starts at
  or after 0 and is at least 0.5 s long, \<open>dedupeClips\<close> is idempotent (for the gap 1.0
  of the default flow and for any other gap): applying it to its own output returns
  that output unchanged.
\<close>

theorem dedupeClips_idempotent_floored:
  assumes "\<forall>c \<in> set candidates. 0 \<le> c_start c \<and> c_start c + 0.5 \<le> c_end c"
  shows "dedupeClips (dedupeClips candidates minGapSeconds) minGapSeconds
           = dedupeClips candidates minGapSeconds"
proof -
  have "list_all floor_ok candidates" using assms by (simp add: list_all_iff floor_ok_def)
  then have "merged minGapSeconds (dedupeClips candidates minGapSeconds) []"
    by (rule dedupeClips_merged)
  then show ?thesis by (rule dedupeClips_fixed)
qed

theorem dedupeClips_idempotent_floored_witness:
  "dedupeClips [\<lparr>fileIndex = 0, c_start = 1, c_end = 3\<rparr>, \<lparr>fileIndex = 0, c_start = 2, c_end = 4\<rparr>,
               \<lparr>fileIndex = 0, c_start = 6, c_end = 7\<rparr>] 1.0
      = [\<lparr>fileIndex = 0, c_start = 1, c_end = 4\<rparr>, \<lparr>fileIndex = 0, c_start = 6, c_end = 7\<rparr>]
   \<and> dedupeClips (dedupeClips [\<lparr>fileIndex = 0, c_start = 1, c_end = 3\<rparr>,
                               \<lparr>fileIndex = 0, c_start = 2, c_end = 4\<rparr>,
                               \<lparr>fileIndex = 0, c_start = 6, c_end = 7\<rparr>] 1.0) 1.0
      = [\<lparr>fileIndex = 0, c_start = 1, c_end = 4\<rparr>, \<lparr>fileIndex = 0, c_start = 6, c_end = 7\<rparr>]"
  using dedupeClips_idempotent_floored
     [of "[\<lparr>fileIndex = 0, c_start = 1, c_end = 3\<rparr>, \<lparr>fileIndex = 0, c_start = 2, c_end = 4\<rparr>,
           \<lparr>fileIndex = 0, c_start = 6, c_end = 7\<rparr>]" "1.0"]
  by (simp add: dedupeClips_def dedupe_merge_def dedupe_floor_def clip_key_def)

text \<open>
  The claim as stated fails when a clip is shorter than 0.5 s: the clips \<open>[0, 0.2]\<close>
  and \<open>[1.2, 3]\<close> of file 0 are 1.0 s apart and both kept, the first is stretched to
  \<open>[0, 0.5]\<close>, and a second pass, finding them 0.7 s apart, merges them into
  \<open>[0, 3]\<close>.
\<close>

theorem dedupeClips_not_idempotent_counterexample:
  "dedupeClips [\<lparr>fileIndex = 0, c_start = 0, c_end = 0.2\<rparr>,
                \<lparr>fileIndex = 0, c_start = 1.2, c_end = 3\<rparr>] 1.0
     = [\<lparr>fileIndex = 0, c_start = 0, c_end = 0.5\<rparr>, \<lparr>fileIndex = 0, c_start = 1.2, c_end = 3\<rparr>]
   \<and> dedupeClips (dedupeClips [\<lparr>fileIndex = 0, c_start = 0, c_end = 0.2\<rparr>,
                               \<lparr>fileIndex = 0, c_start = 1.2, c_end = 3\<rparr>] 1.0) 1.0
     = [\<lparr>fileIndex = 0, c_start = 0, c_end = 3\<rparr>]
   \<and> dedupeClips (dedupeClips [\<lparr>fileIndex = 0, c_start = 0, c_end = 0.2\<rparr>,
                               \<lparr>fileIndex = 0, c_start = 1.2, c_end = 3\<rparr>] 1.0) 1.0
     \<noteq> dedupeClips [\<lparr>fileIndex = 0, c_start = 0, c_end = 0.2\<rparr>,
                     \<lparr>fileIndex = 0, c_start = 1.2, c_end = 3\<rparr>] 1.0"
  by (simp add: dedupeClips_def dedupe_merge_def dedupe_floor_def clip_key_def)

section \<open>The caption cursor\<close>



























section \<open>Clip bounds after analysis\<close>

lemma mapGlobalTimeToFileRange_loop_ok:
  "mapGlobalTimeToFileRange_loop i s e rs offs = Some c \<Longrightarrow> cand_ok rs c"
proof (induction i s e rs offs rule: mapGlobalTimeToFileRange_loop.induct)
  case (1 i s e rs offs)
  show ?case
  proof (cases "i < length rs")
    case False
    then show ?thesis using "1.prems" by (subst (asm) mapGlobalTimeToFileRange_loop.simps) simp
  next
    case True
    show ?thesis
    proof (cases "i < length offs \<and> s \<ge> offs ! i \<and> s < offs ! i + duration (rs ! i)")
      case hit: True
      then have "c = \<lparr>fileIndex = i, c_start = s - offs ! i,
                       c_end = min (e - offs ! i) (duration (rs ! i))\<rparr>"
        using "1.prems" True
        by (subst (asm) mapGlobalTimeToFileRange_loop.simps) (simp add: Let_def)
      then show ?thesis using hit True by (simp add: cand_ok_def)
    next
      case miss: False
      then have "mapGlobalTimeToFileRange_loop (i + 1) s e rs offs = Some c"
        using "1.prems" True
        by (subst (asm) mapGlobalTimeToFileRange_loop.simps) (auto simp: Let_def)
      then show ?thesis using "1.IH"[OF True refl refl miss] by simp
    qed
  qed
qed

lemma clips_loop_ok:
  "list_all (cand_ok rs) acc \<Longrightarrow>
   list_all (cand_ok rs) (clips_loop minLen maxLen maxClips rs offs peaks acc)"
proof (induction peaks arbitrary: acc)
  case Nil
  then show ?case by simp
next
  case (Cons p peaks)
  let ?m = "mapGlobalTimeToFileRange (clamp (real p * hopSec - minLen / 2) 0 None)
              (clamp (clamp (real p * hopSec - minLen / 2) 0 None + maxLen) 0 None) rs offs"
  let ?acc1 = "(case ?m of Some c \<Rightarrow> acc @ [c] | None \<Rightarrow> acc)"
  have ok1: "list_all (cand_ok rs) ?acc1"
  proof (cases ?m)
    case None
    then show ?thesis using Cons.prems by simp
  next
    case (Some c)
    then have "cand_ok rs c"
      unfolding mapGlobalTimeToFileRange_def by (rule mapGlobalTimeToFileRange_loop_ok)
    then show ?thesis using Some Cons.prems by simp
  qed
  show ?case
  proof (cases "real (length ?acc1) \<ge> maxClips")
    case True
    then show ?thesis using ok1 by (simp add: Let_def)
  next
    case False
    then show ?thesis using Cons.IH[OF ok1] by (simp add: Let_def)
  qed
qed

lemma dedupe_merge_ok:
  assumes "list_all (cand_ok rs) out" "cand_ok rs c"
  shows "list_all (cand_ok rs) (dedupe_merge g out c)"
proof (cases "out = [] \<or> fileIndex (last out) \<noteq> fileIndex c \<or> c_start c - c_end (last out) \<ge> g")
  case True
  then show ?thesis using assms by (simp add: dedupe_merge_def)
next
  case False
  then have ne: "out \<noteq> []" and same: "fileIndex (last out) = fileIndex c" by auto
  have l: "cand_ok rs (last out)" using assms(1) ne by (simp add: list_all_iff)
  have "cand_ok rs ((last out)\<lparr>c_end := max (c_end (last out)) (c_end c)\<rparr>)"
    using l assms(2) same by (simp add: cand_ok_def)
  moreover have "list_all (cand_ok rs) (butlast out)"
    using assms(1) by (auto simp: list_all_iff dest: in_set_butlastD)
  ultimately show ?thesis using False by (simp add: dedupe_merge_def)
qed

lemma dedupe_foldl_ok:
  "list_all (cand_ok rs) out \<Longrightarrow> list_all (cand_ok rs) cs \<Longrightarrow>
   list_all (cand_ok rs) (foldl (dedupe_merge g) out cs)"
  by (induction cs arbitrary: out) (simp_all add: dedupe_merge_ok)

lemma dedupe_floor_bounds:
  assumes "cand_ok rs c"
  shows "fileIndex (dedupe_floor c) < length rs
     \<and> 0 \<le> c_start (dedupe_floor c)
     \<and> c_start (dedupe_floor c) < duration (rs ! fileIndex (dedupe_floor c))
     \<and> c_start (dedupe_floor c) < c_end (dedupe_floor c)
     \<and> c_end (dedupe_floor c) - c_start (dedupe_floor c) \<ge> 0.5
     \<and> c_end (dedupe_floor c)
          \<le> max (duration (rs ! fileIndex (dedupe_floor c))) (c_start (dedupe_floor c) + 0.5)"
  using assms by (auto simp: cand_ok_def dedupe_floor_def max_def)

text \<open>
  The bounds that every clip returned by \<open>analyzeVideos\<close> satisfies, for all files and
  parameters: it names a file of the list, starts at or after 0 and before the end of
  that file, is at least 0.5 s long, and ends no later than the later of the file's end
  and its own start plus 0.5 s.
\<close>

theorem analyzeVideos_clip_bounds:
  "\<forall>c \<in> set (clips (analyzeVideos videoFiles minLen maxLen maxClips)).
     fileIndex c < length videoFiles
     \<and> 0 \<le> c_start c
     \<and> c_start c < duration (videoFiles ! fileIndex c)
     \<and> c_start c < c_end c
     \<and> c_end c - c_start c \<ge> 0.5
     \<and> c_end c \<le> max (duration (videoFiles ! fileIndex c)) (c_start c + 0.5)"
proof
  fix c assume "c \<in> set (clips (analyzeVideos videoFiles minLen maxLen maxClips))"
  then obtain x where x: "x \<in> set (foldl (dedupe_merge 1.0) []
        (sort_key clip_key (clips_loop minLen maxLen maxClips videoFiles (videoOffsets videoFiles)
           (detectPeaks (globalAudio_of videoFiles) (q80 (globalAudio_of videoFiles)) 3) [])))"
    and c: "c = dedupe_floor x"
    by (auto simp: analyzeVideos_def Let_def dedupeClips_def)
  have "list_all (cand_ok videoFiles)
          (clips_loop minLen maxLen maxClips videoFiles (videoOffsets videoFiles)
             (detectPeaks (globalAudio_of videoFiles) (q80 (globalAudio_of videoFiles)) 3) [])"
    by (rule clips_loop_ok) simp
  then have "list_all (cand_ok videoFiles)
          (sort_key clip_key (clips_loop minLen maxLen maxClips videoFiles (videoOffsets videoFiles)
             (detectPeaks (globalAudio_of videoFiles) (q80 (globalAudio_of videoFiles)) 3) []))"
    by (simp add: list_all_iff)
  then have "list_all (cand_ok videoFiles) (foldl (dedupe_merge 1.0) []
        (sort_key clip_key (clips_loop minLen maxLen maxClips videoFiles (videoOffsets videoFiles)
           (detectPeaks (globalAudio_of videoFiles) (q80 (globalAudio_of videoFiles)) 3) [])))"
    by (intro dedupe_foldl_ok) simp_all
  then have "cand_ok videoFiles x" using x by (simp add: list_all_iff)
  then show "fileIndex c < length videoFiles
     \<and> 0 \<le> c_start c
     \<and> c_start c < duration (videoFiles ! fileIndex c)
     \<and> c_start c < c_end c
     \<and> c_end c - c_start c \<ge> 0.5
     \<and> c_end c \<le> max (duration (videoFiles ! fileIndex c)) (c_start c + 0.5)"
    unfolding c by (rule dedupe_floor_bounds)
qed


lemma boundary_globalAudio:
  "globalAudio_of boundary_files =
     [0, 0, 0, 0, 0, 0, 0, 0, 0, 0,
      0, 0, 0, 0, 0, 0, 0, 0, 0, 0,
      0, 0, 0, 0, 0, 0, 0, 0, 0, 0,
      0, 0, 0, 0, 0, 0, 0, 1 / 5, 1 / 5, 1 / 5,
      1 / 5, 1 / 5, 0, 0, 0, 0, 0, 0, 0, 0]"
  by (simp add: globalAudio_of_def boundary_files_def movingAverage_def movingAverage_step_def
        upt_rec Let_def)

lemma boundary_q80: "q80 (globalAudio_of boundary_files) = 0.01"
  unfolding boundary_globalAudio by (simp add: q80_def Let_def)

lemma boundary_peaks:
  "detectPeaks (globalAudio_of boundary_files) (q80 (globalAudio_of boundary_files)) 3 = [37]"
  unfolding boundary_q80 unfolding boundary_globalAudio
  by (simp add: detectPeaks_def detectPeaks_step_def upt_rec)

lemma boundary_candidates:
  "clips_loop 6 20 8 boundary_files (videoOffsets boundary_files) [37] []
     = [\<lparr>fileIndex = 0, c_start = 0.7, c_end = 1\<rparr>]"
  by (simp add: boundary_files_def videoOffsets_def hopSec_def clamp_def
        mapGlobalTimeToFileRange_def mapGlobalTimeToFileRange_loop.simps Let_def)

lemma boundary_clips:
  "clips (analyzeVideos boundary_files 6 20 8)
     = [\<lparr>fileIndex = 0, c_start = 0.7, c_end = 1.2\<rparr>]"
  unfolding analyzeVideos_def Let_def boundary_peaks boundary_candidates
  by (simp add: dedupeClips_def dedupe_merge_def dedupe_floor_def clip_key_def)

theorem analyzeVideos_clip_bounds_witness:
  "\<lparr>fileIndex = 0, c_start = 0.7, c_end = 1.2\<rparr> \<in> set (clips (analyzeVideos boundary_files 6 20 8))
   \<and> (0::nat) < length boundary_files \<and> (0.7::real) < duration (boundary_files ! 0)
   \<and> (1.2::real) - 0.7 \<ge> 0.5
   \<and> (1.2::real) \<le> max (duration (boundary_files ! 0)) (0.7 + 0.5)"
  using analyzeVideos_clip_bounds[of boundary_files 6 20 8] boundary_clips
  by (simp add: boundary_files_def)

text \<open>
  Claim C1 at a concrete input. With the default parameters (6, 20, 8) and the two files
  of \<open>boundary_files\<close>, the only peak is at 3.7 s of the global curve; its window starts
  at 0.7 s, inside the first file, and is cut at that file's end, 1 s; the minimum-length
  floor of \<open>dedupeClips\<close> then moves the end to 1.2 s, past the file's duration.
\<close>

theorem analyzeVideos_clip_past_file_end:
  "clips (analyzeVideos boundary_files 6 20 8)
     = [\<lparr>fileIndex = 0, c_start = 0.7, c_end = 1.2\<rparr>]
   \<and> duration (boundary_files ! 0) = 1
   \<and> \<not> c_end (clips (analyzeVideos boundary_files 6 20 8) ! 0)
         \<le> duration (boundary_files ! fileIndex (clips (analyzeVideos boundary_files 6 20 8) ! 0))"
proof -
  have d: "duration (boundary_files ! 0) = 1" by (simp add: boundary_files_def)
  show ?thesis unfolding boundary_clips using d by simp
qed

end
